theory Spec2Isabelle
  imports Main
begin

text \<open>
  A model of \<open>git_sort.py\<close> (Python 2): the functions \<open>_get_heads\<close>,
  \<open>_rebuild_history\<close>, \<open>_get_history\<close> and \<open>git_sort\<close> and the main program, under
  their names without the leading underscore. The repository, the \<open>git\<close> subprocesses,
  the shelf and the standard streams are explicit arguments and results; an exception is
  a value of type \<open>exn\<close>.
\<close>

section \<open>Python values used by git\_sort.py\<close>

text \<open>
  The exceptions the script raises or lets escape. \<open>Exception\<close> carries the message the
  script builds; \<open>CalledProcessError\<close> is what \<open>subprocess.check_output\<close> raises when
  \<open>git config\<close> exits non-zero.
\<close>

datatype exn = KeyError | ValueError | IndexError | CalledProcessError | Exception string

text \<open>Whitespace of a Python 2 byte string: space, tab, newline, vertical tab, form feed,
  carriage return.\<close>

definition isspace :: "char \<Rightarrow> bool" where
  "isspace c = (c \<in> set [CHR '' '', CHR 0x09, CHR 0x0A, CHR 0x0B, CHR 0x0C, CHR 0x0D])"

definition lstrip :: "string \<Rightarrow> string" where
  "lstrip s = dropWhile isspace s"

definition rstrip :: "string \<Rightarrow> string" where
  "rstrip s = rev (dropWhile isspace (rev s))"

text \<open>\<open>s.strip()\<close>\<close>

definition strip :: "string \<Rightarrow> string" where
  "strip s = rstrip (lstrip s)"

text \<open>
  \<open>s.split(None, 1)\<close>: leading whitespace is dropped, the first run of non-whitespace is
  the first field, and what follows the next run of whitespace (if anything) is the second
  field, trailing whitespace included.
\<close>

definition split_ws1 :: "string \<Rightarrow> string list" where
  "split_ws1 s =
     (let t = lstrip s in
      if t = [] then []
      else (let a = takeWhile (\<lambda>c. \<not> isspace c) t;
                r = lstrip (dropWhile (\<lambda>c. \<not> isspace c) t)
            in if r = [] then [a] else [a, r]))"

text \<open>\<open>s.split(sep)\<close> for a one-character separator: every occurrence splits, empty fields
  are kept.\<close>

fun split_on :: "char \<Rightarrow> string \<Rightarrow> string list" where
  "split_on sep [] = [[]]"
| "split_on sep (c # cs) =
     (if c = sep then [] # split_on sep cs
      else (case split_on sep cs of
              [] \<Rightarrow> [[c]]
            | f # fs \<Rightarrow> (c # f) # fs))"

text \<open>\<open>sep.join(xs)\<close>\<close>

fun join :: "string \<Rightarrow> string list \<Rightarrow> string" where
  "join sep [] = []"
| "join sep [x] = x"
| "join sep (x # y # ys) = x @ sep @ join sep (y # ys)"

text \<open>\<open>"%d" % n\<close> for a non-negative \<open>n\<close>.\<close>

definition digit_char :: "nat \<Rightarrow> char" where
  "digit_char d = char_of (48 + d)"

function str_nat :: "nat \<Rightarrow> string" where
  "str_nat n = (if n < 10 then [digit_char n] else str_nat (n div 10) @ [digit_char (n mod 10)])"
  by pat_completeness auto
termination
  by (relation "measure id") auto

declare str_nat.simps [simp del]

section \<open>The catalog of heads\<close>

type_synonym heads = "(string \<times> string) list"

type_synonym history = "string \<rightharpoonup> string list"

definition head_names :: "(string \<times> string list) list" where
  "head_names =
    [(''linux.git'',
      [''git://git.kernel.org/pub/scm/linux/kernel/git/torvalds/linux.git'',
       ''https://git.kernel.org/pub/scm/linux/kernel/git/torvalds/linux.git'',
       ''https://kernel.googlesource.com/pub/scm/linux/kernel/git/torvalds/linux.git'']),
     (''net'',
      [''git://git.kernel.org/pub/scm/linux/kernel/git/davem/net.git'',
       ''https://git.kernel.org/pub/scm/linux/kernel/git/davem/net.git'',
       ''https://kernel.googlesource.com/pub/scm/linux/kernel/git/davem/net.git'']),
     (''net-next'',
      [''git://git.kernel.org/pub/scm/linux/kernel/git/davem/net-next.git'',
       ''https://git.kernel.org/pub/scm/linux/kernel/git/davem/net-next.git'',
       ''https://kernel.googlesource.com/pub/scm/linux/kernel/git/davem/net-next.git''])]"

section \<open>The repository\<close>

text \<open>
  What the script asks of the repository: \<open>repo.revparse_single(rev)\<close>, giving the commit
  id as the string \<open>str(commit.id)\<close> or raising (\<open>ValueError\<close> for a specification that
  does not parse, \<open>KeyError\<close> for one that names no object), and the lines printed by
  \<open>git config --get-regexp '^remote\..+\.url$'\<close>, already cut by \<open>splitlines()\<close>.
\<close>

record repo =
  revparse_single :: "string \<Rightarrow> exn + string"
  config_remotes :: "exn + string list"

text \<open>
  The first loop of \<open>_get_heads\<close>: \<open>name, url = line.split(None, 1)\<close> raises
  \<open>ValueError\<close> unless there are exactly two fields; \<open>name.split(".")[1]\<close> raises
  \<open>IndexError\<close> when the name has no dot. \<open>remotes[url] = name\<close>: a later line
  with the same URL overwrites.
\<close>

fun parse_remotes :: "string list \<Rightarrow> (string \<rightharpoonup> string) \<Rightarrow> exn + (string \<rightharpoonup> string)" where
  "parse_remotes [] remotes = Inr remotes"
| "parse_remotes (line # rest) remotes =
     (case split_ws1 line of
        [name, url] \<Rightarrow>
          (case split_on (CHR ''.'') name of
             _ # name' # _ \<Rightarrow> parse_remotes rest (remotes(url \<mapsto> name'))
           | _ \<Rightarrow> Inl IndexError)
      | _ \<Rightarrow> Inl ValueError)"

text \<open>
  The inner loop \<open>for url in urls\<close>. The \<open>continue\<close> that ends the \<open>if\<close> body
  continues this same loop, so the remaining URLs of the link are still visited.
\<close>

fun match_urls ::
  "repo \<Rightarrow> (string \<rightharpoonup> string) \<Rightarrow> string \<Rightarrow> string list \<Rightarrow> heads \<Rightarrow> exn + heads" where
  "match_urls rp remotes head_name [] hs = Inr hs"
| "match_urls rp remotes head_name (url # urls) hs =
     (case remotes url of
        None \<Rightarrow> match_urls rp remotes head_name urls hs
      | Some r \<Rightarrow>
          (let rev = r @ ''/master'' in
           case revparse_single rp rev of
             Inl KeyError \<Rightarrow>
               Inl (Exception (''Could not read revision \"'' @ rev @
                      ''\", does that remote not have a master branch?''))
           | Inl e \<Rightarrow> Inl e
           | Inr commit \<Rightarrow> match_urls rp remotes head_name urls (hs @ [(head_name, commit)])))"

text \<open>The outer loop \<open>for head_name, urls in head_names\<close>.\<close>

fun match_heads ::
  "repo \<Rightarrow> (string \<rightharpoonup> string) \<Rightarrow> (string \<times> string list) list \<Rightarrow> heads \<Rightarrow> exn + heads" where
  "match_heads rp remotes [] hs = Inr hs"
| "match_heads rp remotes ((head_name, urls) # rest) hs =
     (case match_urls rp remotes head_name urls hs of
        Inl e \<Rightarrow> Inl e
      | Inr hs' \<Rightarrow> match_heads rp remotes rest hs')"

text \<open>The closing test of \<open>_get_heads\<close>: \<open>not heads or heads[0][0] != head_names[0][0]\<close>.\<close>

definition head_fallback :: "repo \<Rightarrow> heads \<Rightarrow> exn + heads" where
  "head_fallback rp hs =
     (if hs = [] \<or> fst (hd hs) \<noteq> fst (hd head_names) then
        (case revparse_single rp ''HEAD'' of
           Inl e \<Rightarrow> Inl e
         | Inr commit \<Rightarrow> Inr [(''HEAD'', commit)])
      else Inr hs)"

definition get_heads :: "repo \<Rightarrow> exn + heads" where
  "get_heads rp =
     (case config_remotes rp of
        Inl e \<Rightarrow> Inl e
      | Inr config_lines \<Rightarrow>
          (case parse_remotes config_lines Map.empty of
             Inl e \<Rightarrow> Inl e
           | Inr remotes \<Rightarrow>
               (case match_heads rp remotes head_names [] of
                  Inl e \<Rightarrow> Inl e
                | Inr hs \<Rightarrow> head_fallback rp hs)))"

section \<open>Rebuilding the history\<close>

text \<open>
  \<open>git log --topo-order --reverse --pretty=tformat:%H\<close> run on further arguments: the
  model of the subprocess takes those arguments and gives the exit status and the lines
  read from its output (standard error is merged into it).
\<close>

type_synonym git_log = "string list \<Rightarrow> int \<times> string list"

text \<open>
  The loop of \<open>_rebuild_history\<close>, with its two locals \<open>processed\<close> and \<open>history\<close>.
  The duplicate test comes before the lines are stored and the exit status after.
\<close>

fun rebuild_loop :: "git_log \<Rightarrow> heads \<Rightarrow> string list \<Rightarrow> history \<Rightarrow> exn + history" where
  "rebuild_loop gl [] processed history = Inr history"
| "rebuild_loop gl ((head_name, rv) # rest) processed history =
     (let (returncode, out) = gl (processed @ [rv]) in
      if history head_name \<noteq> None then
        Inl (Exception (''head name \"'' @ head_name @ ''\" is not unique.''))
      else
        (let ls = map strip out;
             history' = history(head_name \<mapsto> ls)
         in if returncode \<noteq> 0 then
              Inl (Exception (''git log exited with an error:'' @ [CHR 0x0A] @
                     join [CHR 0x0A] ls))
            else rebuild_loop gl rest (processed @ [''^'' @ rv]) history'))"

definition rebuild_history :: "git_log \<Rightarrow> heads \<Rightarrow> exn + history" where
  "rebuild_history gl hs = rebuild_loop gl hs [] Map.empty"

section \<open>The cache\<close>

text \<open>
  The shelf \<open>~/.cache/git-sort\<close> holds at most the two keys \<open>"heads"\<close> and
  \<open>"history"\<close>; each is present or absent.
\<close>

record cache =
  cache_heads :: "heads option"
  cache_history :: "history option"

text \<open>
  \<open>_get_history\<close>, with the builder it calls as a parameter. It returns the history or
  the exception raised, and the shelf as it is left. \<open>c_heads != heads\<close> holds when the
  key is absent (\<open>None\<close> differs from every list).
\<close>

definition get_history ::
  "(heads \<Rightarrow> exn + history) \<Rightarrow> cache \<Rightarrow> heads \<Rightarrow> (exn + history) \<times> cache" where
  "get_history rebuild c hs =
     (let c_heads = cache_heads c in
      if c_heads \<noteq> Some hs then
        (case rebuild hs of
           Inl e \<Rightarrow> (Inl e, c)
         | Inr history \<Rightarrow>
             (Inr history, c\<lparr>cache_heads := Some hs, cache_history := Some history\<rparr>))
      else
        (case cache_history c of
           None \<Rightarrow> (Inl KeyError, c)
         | Some history \<Rightarrow> (Inr history, c)))"

section \<open>Sorting\<close>

datatype 'v SortedEntry = SortedEntry (head_name: string) (entry_value: 'v)

text \<open>
  The mapping handed to \<open>git_sort\<close> is a dictionary; it is modelled as an association
  list in insertion order. \<open>mapping.pop(commit)\<close> looks the key up and removes it.
  The order in which a Python 2 dictionary lists its keys is not the insertion order in
  general; nothing below depends on the relative order of two keys of the list.
\<close>

type_synonym 'v dict = "(string \<times> 'v) list"

definition dict_del :: "string \<Rightarrow> 'v dict \<Rightarrow> 'v dict" where
  "dict_del k m = filter (\<lambda>kv. fst kv \<noteq> k) m"

definition pop :: "'v dict \<Rightarrow> string \<Rightarrow> exn + ('v \<times> 'v dict)" where
  "pop m k = (case map_of m k of None \<Rightarrow> Inl KeyError | Some v \<Rightarrow> Inr (v, dict_del k m))"

text \<open>The inner loop of \<open>git_sort\<close>: the entries yielded for one head, and the mapping left.\<close>

fun sort_commits :: "string \<Rightarrow> string list \<Rightarrow> 'v dict \<Rightarrow> 'v SortedEntry list \<times> 'v dict" where
  "sort_commits hn [] m = ([], m)"
| "sort_commits hn (commit # rest) m =
     (case pop m commit of
        Inl e \<Rightarrow> sort_commits hn rest m
      | Inr (v, m') \<Rightarrow>
          (let (es, m'') = sort_commits hn rest m' in (SortedEntry hn v # es, m'')))"

text \<open>
  The outer loop: \<open>history[head_name]\<close> raises \<open>KeyError\<close> for a head the history does
  not have; the entries yielded up to then and the mapping as it stands are returned with
  the exception.
\<close>

fun sort_heads ::
  "heads \<Rightarrow> history \<Rightarrow> 'v dict \<Rightarrow> exn option \<times> 'v SortedEntry list \<times> 'v dict" where
  "sort_heads [] history m = (None, [], m)"
| "sort_heads ((hn, rv) # rest) history m =
     (case history hn of
        None \<Rightarrow> (Some KeyError, [], m)
      | Some commits \<Rightarrow>
          (let (es, m') = sort_commits hn commits m;
               (r, es', m'') = sort_heads rest history m'
           in (r, es @ es', m'')))"

text \<open>\<open>git_sort(repo, mapping)\<close>: heads, history (through the cache), then the loops.\<close>

definition git_sort ::
  "repo \<Rightarrow> git_log \<Rightarrow> cache \<Rightarrow> 'v dict \<Rightarrow> exn option \<times> 'v SortedEntry list \<times> 'v dict \<times> cache" where
  "git_sort rp gl c mapping =
     (case get_heads rp of
        Inl e \<Rightarrow> (Some e, [], mapping, c)
      | Inr hs \<Rightarrow>
          (case get_history (rebuild_history gl) c hs of
             (Inl e, c') \<Rightarrow> (Some e, [], mapping, c')
           | (Inr history, c') \<Rightarrow>
               (let (r, es, m') = sort_heads hs history mapping in (r, es, m', c'))))"

section \<open>The program\<close>

datatype status = Exit nat | Uncaught exn

record outcome =
  stdout :: string
  stderr :: string
  exit_status :: status
  final_cache :: cache

text \<open>
  The loop over \<open>sys.stdin.readlines()\<close>. \<open>line.strip().split(None, 1)[0]\<close> raises
  \<open>IndexError\<close> on an empty split; only \<open>ValueError\<close> and \<open>KeyError\<close> are caught.
  The result is the dictionary \<open>lines\<close>, or what was written to standard error with the
  way the program ends.
\<close>

fun read_lines ::
  "repo \<Rightarrow> string list \<Rightarrow> nat \<Rightarrow> string list dict \<Rightarrow> (string \<times> status) + string list dict" where
  "read_lines rp [] num lines = Inr lines"
| "read_lines rp (line # rest) num lines =
     (let num' = num + 1 in
      case split_ws1 (strip line) of
        [] \<Rightarrow> Inl ([], Uncaught IndexError)
      | tok # _ \<Rightarrow>
          (case revparse_single rp tok of
             Inl ValueError \<Rightarrow>
               Inl (''Error: did not find a commit hash on line '' @ str_nat num' @ '':'' @
                    [CHR 0x0A] @ strip line @ [CHR 0x0A], Exit 1)
           | Inl KeyError \<Rightarrow>
               Inl (''Error: commit hash on line '' @ str_nat num' @
                    '' not found in the repository:'' @ [CHR 0x0A] @ strip line @ [CHR 0x0A],
                    Exit 1)
           | Inl e \<Rightarrow> Inl ([], Uncaught e)
           | Inr h \<Rightarrow>
               read_lines rp rest num'
                 (if map_of lines h \<noteq> None
                  then map (\<lambda>(k, v). if k = h then (k, v @ [line]) else (k, v)) lines
                  else lines @ [(h, [line])])))"

text \<open>
  The \<open>--dump-heads\<close> branch. \<open>pprint.pprint\<close> is the library's; its formatting is the
  parameter \<open>pformat\<close>.
\<close>

definition dump_heads ::
  "(heads option \<Rightarrow> string) \<Rightarrow> repo \<Rightarrow> cache \<Rightarrow> outcome" where
  "dump_heads pformat rp c =
     (let c_heads = cache_heads c;
          out1 = ''Cached heads:'' @ [CHR 0x0A] @ pformat c_heads @ [CHR 0x0A] @
                 ''Current heads:'' @ [CHR 0x0A]
      in case get_heads rp of
           Inl e \<Rightarrow> \<lparr>stdout = out1, stderr = [], exit_status = Uncaught e, final_cache = c\<rparr>
         | Inr hs \<Rightarrow>
             (let action = (if c_heads = Some hs then ''Will not'' else ''Will'')
              in \<lparr>stdout = out1 @ pformat (Some hs) @ [CHR 0x0A] @
                            action @ '' rebuild history'' @ [CHR 0x0A],
                  stderr = [], exit_status = Exit 0, final_cache = c\<rparr>))"

text \<open>The default branch: read, sort, print, report what is left.\<close>

definition sort_stdin :: "repo \<Rightarrow> git_log \<Rightarrow> cache \<Rightarrow> string list \<Rightarrow> outcome" where
  "sort_stdin rp gl c input =
     (case read_lines rp input 0 [] of
        Inl (msg, st) \<Rightarrow> \<lparr>stdout = [], stderr = msg, exit_status = st, final_cache = c\<rparr>
      | Inr lines \<Rightarrow>
          (case git_sort rp gl c lines of
             (Some e, es, lines', c') \<Rightarrow>
               \<lparr>stdout = [], stderr = [], exit_status = Uncaught e, final_cache = c'\<rparr>
           | (None, es, lines', c') \<Rightarrow>
               (let out = concat (concat (map entry_value es)) in
                if length lines' \<noteq> 0 then
                  \<lparr>stdout = out @ concat (concat (map snd lines')),
                   stderr = ''Error: the following entries were not found upstream:'' @
                            [CHR 0x0A],
                   exit_status = Exit 1, final_cache = c'\<rparr>
                else
                  \<lparr>stdout = out, stderr = [], exit_status = Exit 0, final_cache = c'\<rparr>)))"

definition main ::
  "bool \<Rightarrow> (heads option \<Rightarrow> string) \<Rightarrow> repo \<Rightarrow> git_log \<Rightarrow> cache \<Rightarrow> string list \<Rightarrow> outcome" where
  "main dump pformat rp gl c input =
     (if dump then dump_heads pformat rp c else sort_stdin rp gl c input)"

section \<open>Vocabulary of the properties\<close>

text \<open>
  The contract of the log enumeration: run with the exclusions \<open>^e\<close> for \<open>e\<close> in
  \<open>E\<close> and the revision \<open>R\<close>, it prints exactly the commits reachable from \<open>R\<close>
  and from no member of \<open>E\<close>. \<open>reach\<close> is the reachability of the repository at hand.
\<close>

definition log_contract :: "git_log \<Rightarrow> (string \<Rightarrow> string set) \<Rightarrow> bool" where
  "log_contract gl reach =
     (\<forall>E R. set (map strip (snd (gl (map (\<lambda>e. ''^'' @ e) E @ [R])))) =
              reach R - (\<Union>e\<in>set E. reach e))"

text \<open>The commits a history lists under a head name (none for a name it does not have).\<close>

definition link_commits :: "history \<Rightarrow> string \<Rightarrow> string set" where
  "link_commits H n = (case H n of None \<Rightarrow> {} | Some cs \<Rightarrow> set cs)"

text \<open>An input line whose first token the repository resolves to a commit.\<close>

definition resolves :: "repo \<Rightarrow> string \<Rightarrow> bool" where
  "resolves rp line =
     (case split_ws1 (strip line) of
        [] \<Rightarrow> False
      | tok # _ \<Rightarrow> (case revparse_single rp tok of Inl e \<Rightarrow> False | Inr h \<Rightarrow> True))"

section \<open>A small repository to run the program on\<close>

text \<open>
  Commit ids are non-empty strings without whitespace; the parent of \<open>c # cs\<close> is \<open>cs\<close>.
  So \<open>''cba''\<close> has the ancestors \<open>''ba''\<close> and \<open>''a''\<close>, and \<open>''dba''\<close> shares them.
  \<open>ancestry r\<close> lists \<open>r\<close> and its ancestors, oldest first.
\<close>

fun tails :: "string \<Rightarrow> string list" where
  "tails [] = []"
| "tails (c # cs) = (c # cs) # tails cs"

definition ancestry :: "string \<Rightarrow> string list" where
  "ancestry r = rev (tails (filter (\<lambda>ch. \<not> isspace ch) r))"

definition chain_reach :: "string \<Rightarrow> string set" where
  "chain_reach r = set (ancestry r)"

text \<open>Its \<open>git log\<close>: always exit status 0, one commit a line.\<close>

definition chain_log :: git_log where
  "chain_log args =
     (0, map (\<lambda>s. s @ [CHR 0x0A])
           (filter (\<lambda>s. list_all (\<lambda>e. s \<notin> set (ancestry (tl e))) (butlast args))
              (ancestry (last args))))"

text \<open>A \<open>git log\<close> that always fails.\<close>

definition failing_log :: git_log where
  "failing_log args = (128, [''fatal: bad revision'' @ [CHR 0x0A]])"

text \<open>A clone of linux.git under the remote \<open>origin\<close>, with \<open>master\<close> at \<open>''cba''\<close>.\<close>

definition demo_repo :: repo where
  "demo_repo =
     \<lparr>revparse_single =
        (\<lambda>r. if r = ''HEAD'' \<or> r = ''origin/master'' then Inr ''cba''
             else if r \<in> set [''a'', ''ba'', ''cba'', ''zz''] then Inr r
             else if r = ''not-a-hash'' then Inl ValueError
             else Inl KeyError),
      config_remotes = Inr
        [''remote.origin.url git://git.kernel.org/pub/scm/linux/kernel/git/torvalds/linux.git'']\<rparr>"

text \<open>The same mainline reachable under two remotes, by its git and by its https URL.\<close>

definition two_url_repo :: repo where
  "two_url_repo =
     \<lparr>revparse_single =
        (\<lambda>r. if r = ''origin/master'' then Inr ''cba''
             else if r = ''mirror/master'' then Inr ''dcba''
             else if r = ''HEAD'' then Inr ''cba''
             else Inl KeyError),
      config_remotes = Inr
        [''remote.origin.url git://git.kernel.org/pub/scm/linux/kernel/git/torvalds/linux.git'',
         ''remote.mirror.url https://git.kernel.org/pub/scm/linux/kernel/git/torvalds/linux.git'']\<rparr>"

text \<open>A clone of net.git only: the first catalog entry has no remote.\<close>

definition net_only_repo :: repo where
  "net_only_repo =
     \<lparr>revparse_single =
        (\<lambda>r. if r = ''davem/master'' then Inr ''dba''
             else if r = ''HEAD'' then Inr ''cba''
             else Inl KeyError),
      config_remotes = Inr
        [''remote.davem.url https://git.kernel.org/pub/scm/linux/kernel/git/davem/net.git'']\<rparr>"

definition empty_cache :: cache where
  "empty_cache = \<lparr>cache_heads = None, cache_history = None\<rparr>"

definition demo_history :: history where
  "demo_history = [''linux.git'' \<mapsto> [''a'', ''ba'', ''cba'']]"

definition demo_cache :: cache where
  "demo_cache = \<lparr>cache_heads = Some [(''linux.git'', ''cba'')], cache_history = Some demo_history\<rparr>"

text \<open>
  A repository with no remote at all: \<open>git config --get-regexp\<close> finds no key and
  exits with status 1, so \<open>subprocess.check_output\<close> raises.
\<close>

definition no_remote_repo :: repo where
  "no_remote_repo =
     \<lparr>revparse_single =
        (\<lambda>r. if r = ''HEAD'' \<or> r = ''cba'' then Inr ''cba'' else Inl KeyError),
      config_remotes = Inl CalledProcessError\<rparr>"

text \<open>A repository whose only remote is not in the catalog.\<close>

definition foreign_repo :: repo where
  "foreign_repo =
     \<lparr>revparse_single = (\<lambda>r. if r = ''HEAD'' then Inr ''cba'' else Inl KeyError),
      config_remotes = Inr [''remote.origin.url https://example.org/project.git'']\<rparr>"

text \<open>The history of the heads \<open>linux.git\<close> at \<open>''cba''\<close> and \<open>net\<close> at \<open>''dba''\<close>.\<close>

definition two_link_history :: history where
  "two_link_history = [''linux.git'' \<mapsto> [''a'', ''ba'', ''cba''], ''net'' \<mapsto> [''dba'']]"

text \<open>A history that wrongly lists \<open>''ba''\<close> under both names.\<close>

definition overlapping_history :: history where
  "overlapping_history =
     [''linux.git'' \<mapsto> [''a'', ''ba'', ''cba''], ''net'' \<mapsto> [''ba'', ''dba'']]"

text \<open>A shelf written when \<open>master\<close> was at \<open>''ba''\<close>.\<close>

definition stale_cache :: cache where
  "stale_cache =
     \<lparr>cache_heads = Some [(''linux.git'', ''ba'')],
      cache_history = Some [''linux.git'' \<mapsto> [''a'', ''ba'']]\<rparr>"

text \<open>A stand-in for \<open>pprint.pformat\<close>.\<close>

definition demo_pformat :: "heads option \<Rightarrow> string" where
  "demo_pformat h =
     (case h of None \<Rightarrow> ''None'' | Some hs \<Rightarrow> concat (map (\<lambda>(n, r). n @ '' '' @ r @ '';'') hs))"

section \<open>Lemmas about the model\<close>

subsection \<open>Dictionaries\<close>

lemma map_of_filter_keep:
  "P k \<Longrightarrow> map_of (filter (\<lambda>kv. P (fst kv)) m) k = map_of m k"
  by (induction m) auto

lemma sort_commits_keys:
  "sort_commits hn cs m = (es, m') \<Longrightarrow>
     \<exists>ks. distinct ks \<and> set ks \<subseteq> fst ` set m \<and> set ks \<subseteq> set cs \<and>
          es = map (\<lambda>k. SortedEntry hn (the (map_of m k))) ks \<and>
          m' = filter (\<lambda>kv. fst kv \<notin> set ks) m"
proof (induction cs arbitrary: m es m')
  case Nil
  then show ?case by simp
next
  case (Cons c cs)
  show ?case
  proof (cases "map_of m c")
    case None
    with Cons.prems have "sort_commits hn cs m = (es, m')"
      by (simp add: pop_def)
    from Cons.IH [OF this] show ?thesis by auto
  next
    case (Some v)
    obtain es1 m1 where rec: "sort_commits hn cs (dict_del c m) = (es1, m1)"
      by (cases "sort_commits hn cs (dict_del c m)")
    with Cons.prems Some have es: "es = SortedEntry hn v # es1" and m': "m' = m1"
      by (simp_all add: pop_def)
    from Cons.IH [OF rec] obtain ks where
      ks: "distinct ks" "set ks \<subseteq> fst ` set (dict_del c m)" "set ks \<subseteq> set cs"
        "es1 = map (\<lambda>k. SortedEntry hn (the (map_of (dict_del c m) k))) ks"
        "m1 = filter (\<lambda>kv. fst kv \<notin> set ks) (dict_del c m)"
      by blast
    have cnot: "c \<notin> set ks"
      using ks(2) by (auto simp: dict_del_def)
    have same: "\<And>k. k \<noteq> c \<Longrightarrow> map_of (dict_del c m) k = map_of m k"
      unfolding dict_del_def by (rule map_of_filter_keep)
    have cin: "c \<in> fst ` set m"
      using Some by (metis map_of_SomeD fst_conv image_eqI)
    have "distinct (c # ks)" using ks(1) cnot by simp
    moreover have "set (c # ks) \<subseteq> fst ` set m"
      using ks(2) cin by (auto simp: dict_del_def)
    moreover have "set (c # ks) \<subseteq> set (c # cs)" using ks(3) by auto
    moreover have "es = map (\<lambda>k. SortedEntry hn (the (map_of m k))) (c # ks)"
    proof -
      have "map (\<lambda>k. SortedEntry hn (the (map_of (dict_del c m) k))) ks =
            map (\<lambda>k. SortedEntry hn (the (map_of m k))) ks"
      proof (rule map_cong)
        fix k assume "k \<in> set ks"
        with cnot have "k \<noteq> c" by blast
        then show "SortedEntry hn (the (map_of (dict_del c m) k)) =
                   SortedEntry hn (the (map_of m k))"
          by (simp add: same)
      qed simp
      then have "es1 = map (\<lambda>k. SortedEntry hn (the (map_of m k))) ks"
        by (simp only: ks(4))
      moreover have "SortedEntry hn v = SortedEntry hn (the (map_of m c))"
        by (simp add: Some)
      ultimately show ?thesis by (simp only: es list.map)
    qed
    moreover have "m' = filter (\<lambda>kv. fst kv \<notin> set (c # ks)) m"
      using m' ks(5) by (auto simp: dict_del_def intro: filter_cong)
    ultimately show ?thesis by blast
  qed
qed

subsection \<open>The rebuild loop\<close>

lemma step_unfold:
  assumes "rebuild_loop gl ((n, r) # hs) processed H0 = Inr H"
    and "gl (processed @ [r]) = (rc, out)"
  shows "H0 n = None \<and> rc = 0 \<and>
         rebuild_loop gl hs (processed @ [''^'' @ r]) (H0(n \<mapsto> map strip out)) = Inr H"
proof -
  have a: "H0 n = None"
  proof (rule ccontr)
    assume "H0 n \<noteq> None"
    with assms show False by simp
  qed
  have b: "rc = 0"
  proof (rule ccontr)
    assume "rc \<noteq> 0"
    with assms a show False by simp
  qed
  from assms a b show ?thesis by simp
qed

lemma rebuild_loop_spec:
  assumes c: "log_contract gl reach"
  shows "rebuild_loop gl hs (map (\<lambda>e. ''^'' @ e) E) H0 = Inr H \<Longrightarrow>
     distinct (map fst hs) \<and> (\<forall>n\<in>fst ` set hs. H0 n = None) \<and>
     (\<forall>n. n \<notin> fst ` set hs \<longrightarrow> H n = H0 n) \<and>
     (\<forall>i<length hs. link_commits H (fst (hs ! i)) =
          reach (snd (hs ! i)) - (\<Union>e\<in>set E. reach e) - (\<Union>r\<in>snd ` set (take i hs). reach r)) \<and>
     (\<forall>n\<in>fst ` set hs. H n \<noteq> None)"
proof (induction hs arbitrary: E H0)
  case Nil
  then show ?case by simp
next
  case (Cons h hs)
  obtain n r where h: "h = (n, r)" by (cases h)
  obtain rc out where g: "gl (map (\<lambda>e. ''^'' @ e) E @ [r]) = (rc, out)"
    by (cases "gl (map (\<lambda>e. ''^'' @ e) E @ [r])")
  from Cons.prems have "rebuild_loop gl ((n, r) # hs) (map (\<lambda>e. ''^'' @ e) E) H0 = Inr H"
    by (simp only: h)
  from step_unfold [OF this g] have fresh: "H0 n = None" and rc: "rc = 0"
    and rec0: "rebuild_loop gl hs (map (\<lambda>e. ''^'' @ e) E @ [''^'' @ r])
                (H0(n \<mapsto> map strip out)) = Inr H"
    by blast+
  have "map (\<lambda>e. ''^'' @ e) E @ [''^'' @ r] = map (\<lambda>e. ''^'' @ e) (E @ [r])"
    by simp
  with rec0 have rec:
    "rebuild_loop gl hs (map (\<lambda>e. ''^'' @ e) (E @ [r])) (H0(n \<mapsto> map strip out)) = Inr H"
    by (simp only:)
  note ih = Cons.IH [OF rec]
  note ih_d = ih [THEN conjunct1]
  note ih_f = ih [THEN conjunct2, THEN conjunct1]
  note ih_u = ih [THEN conjunct2, THEN conjunct2, THEN conjunct1]
  note ih_s = ih [THEN conjunct2, THEN conjunct2, THEN conjunct2, THEN conjunct1]
  note ih_p = ih [THEN conjunct2, THEN conjunct2, THEN conjunct2, THEN conjunct2]
  from c g have out: "set (map strip out) = reach r - (\<Union>e\<in>set E. reach e)"
    unfolding log_contract_def by (metis snd_conv)
  have nnot: "n \<notin> fst ` set hs"
  proof
    assume "n \<in> fst ` set hs"
    then have "(H0(n \<mapsto> map strip out)) n = None" by (rule bspec [OF ih_f])
    then show False by simp
  qed
  have Hn: "H n = Some (map strip out)"
    using ih_u nnot by simp
  have d: "distinct (map fst (h # hs))"
    using ih_d nnot h by simp
  have f: "\<forall>m\<in>fst ` set (h # hs). H0 m = None"
  proof
    fix m assume "m \<in> fst ` set (h # hs)"
    then consider "m = n" | "m \<in> fst ` set hs" using h by auto
    then show "H0 m = None"
    proof cases
      case 1 then show ?thesis using fresh by simp
    next
      case 2
      then have "(H0(n \<mapsto> map strip out)) m = None" by (rule bspec [OF ih_f])
      then show ?thesis by (simp split: if_splits)
    qed
  qed
  have u: "\<forall>m. m \<notin> fst ` set (h # hs) \<longrightarrow> H m = H0 m"
    using ih_u h by simp
  have s: "\<forall>i<length (h # hs). link_commits H (fst ((h # hs) ! i)) =
      reach (snd ((h # hs) ! i)) - (\<Union>e\<in>set E. reach e) -
      (\<Union>r\<in>snd ` set (take i (h # hs)). reach r)"
  proof (intro allI impI)
    fix i assume i: "i < length (h # hs)"
    show "link_commits H (fst ((h # hs) ! i)) =
      reach (snd ((h # hs) ! i)) - (\<Union>e\<in>set E. reach e) -
      (\<Union>r\<in>snd ` set (take i (h # hs)). reach r)"
    proof (cases i)
      case 0
      then show ?thesis using Hn out h by (simp add: link_commits_def)
    next
      case (Suc k)
      with i have k: "k < length hs" by simp
      with ih_s have "link_commits H (fst (hs ! k)) =
          reach (snd (hs ! k)) - (\<Union>e\<in>set (E @ [r]). reach e) -
          (\<Union>r\<in>snd ` set (take k hs). reach r)" by blast
      then show ?thesis using Suc h by auto
    qed
  qed
  have p: "\<forall>m\<in>fst ` set (h # hs). H m \<noteq> None"
    using ih_p Hn h by simp
  from d f u s p show ?case by blast
qed

lemma dup_fails:
  "\<not> distinct (map fst hs) \<or> (\<exists>n\<in>fst ` set hs. H0 n \<noteq> None) \<Longrightarrow>
     \<exists>e. rebuild_loop gl hs processed H0 = Inl e"
proof (induction hs arbitrary: processed H0)
  case Nil
  then show ?case by simp
next
  case (Cons h hs)
  obtain n r where h: "h = (n, r)" by (cases h)
  obtain rc out where g: "gl (processed @ [r]) = (rc, out)"
    by (cases "gl (processed @ [r])")
  show ?case
  proof (cases "H0 n \<noteq> None \<or> rc \<noteq> 0")
    case True
    then show ?thesis using h g by auto
  next
    case False
    then have f: "H0 n = None" "rc = 0" by simp_all
    from Cons.prems h f have
      "\<not> distinct (map fst hs) \<or> (\<exists>m\<in>fst ` set hs. (H0(n \<mapsto> map strip out)) m \<noteq> None)"
      by auto
    from Cons.IH [OF this] obtain e where
      "rebuild_loop gl hs (processed @ [''^'' @ r]) (H0(n \<mapsto> map strip out)) = Inl e"
      by blast
    then show ?thesis using h g f by simp
  qed
qed

lemma rc_fails:
  "i < length hs \<Longrightarrow>
   fst (gl (processed @ map (\<lambda>r. ''^'' @ r) (map snd (take i hs)) @ [snd (hs ! i)])) \<noteq> 0 \<Longrightarrow>
     \<exists>e. rebuild_loop gl hs processed H0 = Inl e"
proof (induction hs arbitrary: i processed H0)
  case Nil
  then show ?case by simp
next
  case (Cons h hs)
  obtain n r where h: "h = (n, r)" by (cases h)
  obtain rc out where g: "gl (processed @ [r]) = (rc, out)"
    by (cases "gl (processed @ [r])")
  show ?case
  proof (cases "H0 n \<noteq> None \<or> rc \<noteq> 0")
    case True
    then show ?thesis using h g by auto
  next
    case False
    then have f: "H0 n = None" "rc = 0" by simp_all
    with Cons.prems h g obtain k where k: "i = Suc k"
      by (cases i) auto
    with Cons.prems h have "k < length hs"
      and "fst (gl ((processed @ [''^'' @ r]) @ map (\<lambda>r. ''^'' @ r) (map snd (take k hs)) @
                 [snd (hs ! k)])) \<noteq> 0"
      by simp_all
    from Cons.IH [OF this] obtain e where
      "rebuild_loop gl hs (processed @ [''^'' @ r]) (H0(n \<mapsto> map strip out)) = Inl e"
      by blast
    then show ?thesis using h g f by simp
  qed
qed

subsection \<open>Reading the input\<close>

lemma read_lines_resolved:
  "\<forall>l\<in>set pre. resolves rp l \<Longrightarrow>
     \<exists>lines'. read_lines rp (pre @ rest) num lines = read_lines rp rest (num + length pre) lines'"
proof (induction pre arbitrary: num lines)
  case Nil
  show ?case by (rule exI [of _ lines]) simp
next
  case (Cons l pre)
  from Cons.prems have "resolves rp l" by simp
  then obtain tok toks h where t: "split_ws1 (strip l) = tok # toks"
    and h: "revparse_single rp tok = Inr h"
    by (auto simp: resolves_def split: list.splits sum.splits)
  define lines1 where "lines1 =
     (if map_of lines h \<noteq> None
      then map (\<lambda>(k, v). if k = h then (k, v @ [l]) else (k, v)) lines
      else lines @ [(h, [l])])"
  have step: "read_lines rp ((l # pre) @ rest) num lines =
              read_lines rp (pre @ rest) (num + 1) lines1"
    using t h by (simp add: lines1_def Let_def)
  from Cons.prems have "\<forall>l\<in>set pre. resolves rp l" by simp
  from Cons.IH [OF this] obtain lines' where
    "read_lines rp (pre @ rest) (num + 1) lines1 =
     read_lines rp rest (num + 1 + length pre) lines'"
    by blast
  with step have "read_lines rp ((l # pre) @ rest) num lines =
     read_lines rp rest (num + length (l # pre)) lines'"
    by (simp add: add.commute add.left_commute)
  then show ?case by (rule exI)
qed

lemma blank_no_token:
  assumes "\<forall>ch\<in>set line. isspace ch"
  shows "split_ws1 (strip line) = []"
proof -
  from assms have "dropWhile isspace line = []"
    by (simp only: dropWhile_eq_Nil_conv)
  then have "strip line = []"
    by (simp only: strip_def rstrip_def lstrip_def rev.simps dropWhile.simps)
  then show ?thesis
    by (simp add: split_ws1_def lstrip_def)
qed

subsection \<open>The example repository\<close>

lemma tails_nonempty: "s \<in> set (tails r) \<Longrightarrow> s \<noteq> [] \<and> set s \<subseteq> set r"
  by (induction r) auto

lemma strip_line:
  assumes "s \<noteq> []" and "\<forall>ch\<in>set s. \<not> isspace ch"
  shows "strip (s @ [CHR 0x0A]) = s"
proof -
  from assms obtain a t where s: "s = a # t" and a: "\<not> isspace a"
    by (cases s) auto
  from assms obtain u z where s': "s = u @ [z]" and z: "\<not> isspace z"
    by (cases s rule: rev_cases) auto
  have nl: "isspace (CHR 0x0A)" by (simp add: isspace_def)
  have "lstrip (s @ [CHR 0x0A]) = s @ [CHR 0x0A]"
    using s a by (simp add: lstrip_def)
  moreover have "rstrip (s @ [CHR 0x0A]) = s"
    using s' z nl by (simp add: rstrip_def)
  ultimately show ?thesis by (simp add: strip_def)
qed

lemma ancestry_clean: "s \<in> set (ancestry r) \<Longrightarrow> s \<noteq> [] \<and> (\<forall>ch\<in>set s. \<not> isspace ch)"
  using tails_nonempty [of s "filter (\<lambda>ch. \<not> isspace ch) r"]
  by (auto simp: ancestry_def)

lemma chain_log_contract: "log_contract chain_log chain_reach"
  unfolding log_contract_def
proof (intro allI)
  fix E R
  let ?keep = "filter (\<lambda>s. list_all (\<lambda>e. s \<notin> set (ancestry e)) E) (ancestry R)"
  have args: "butlast (map (\<lambda>e. ''^'' @ e) E @ [R]) = map (\<lambda>e. ''^'' @ e) E"
    "last (map (\<lambda>e. ''^'' @ e) E @ [R]) = R"
    by simp_all
  have out: "snd (chain_log (map (\<lambda>e. ''^'' @ e) E @ [R])) = map (\<lambda>s. s @ [CHR 0x0A]) ?keep"
    unfolding chain_log_def args by (simp add: list_all_iff)
  have "map strip (map (\<lambda>s. s @ [CHR 0x0A]) ?keep) = ?keep"
  proof -
    have "map (\<lambda>s. strip (s @ [CHR 0x0A])) ?keep = ?keep"
    proof (rule map_idI)
      fix s assume "s \<in> set ?keep"
      then have "s \<in> set (ancestry R)" by simp
      from ancestry_clean [OF this] show "strip (s @ [CHR 0x0A]) = s"
        by (simp add: strip_line)
    qed
    then show ?thesis by (simp add: comp_def)
  qed
  with out have "set (map strip (snd (chain_log (map (\<lambda>e. ''^'' @ e) E @ [R])))) = set ?keep"
    by (simp only:)
  also have "\<dots> = chain_reach R - (\<Union>e\<in>set E. chain_reach e)"
    by (auto simp: chain_reach_def list_all_iff)
  finally show "set (map strip (snd (chain_log (map (\<lambda>e. ''^'' @ e) E @ [R])))) =
      chain_reach R - (\<Union>e\<in>set E. chain_reach e)" .
qed

section \<open>The claims\<close>

subsection \<open>Head resolution\<close>

text \<open>
  C2. The claim: a catalog link contributes at most one head even when several of its
  URLs match a configured remote. With two remotes carrying the git and the https URL of
  linux.git the code appends a head for each of them, since the \<open>continue\<close> after
  \<open>heads.append\<close> stays in the loop over the URLs; rebuilding the history from that
  list then stops at its own uniqueness test.
\<close>

theorem get_heads_two_matching_urls:
  "get_heads two_url_repo = Inr [(''linux.git'', ''cba''), (''linux.git'', ''dcba'')] \<and>
   rebuild_history chain_log [(''linux.git'', ''cba''), (''linux.git'', ''dcba'')] =
     Inl (Exception ''head name \"linux.git\" is not unique.'')"
proof
  show "get_heads two_url_repo = Inr [(''linux.git'', ''cba''), (''linux.git'', ''dcba'')]"
    by code_simp
  show "rebuild_history chain_log [(''linux.git'', ''cba''), (''linux.git'', ''dcba'')] =
     Inl (Exception ''head name \"linux.git\" is not unique.'')"
    by (simp add: rebuild_history_def chain_log_def)
qed

text \<open>
  C5. The claim: when no catalog link is matched, or the first head is not the first
  catalog link, \<open>_get_heads\<close> returns the single head \<open>(''HEAD'', h)\<close> with \<open>h\<close>
  the commit of \<open>HEAD\<close>. In a repository with no remote at all, where no link can be
  matched, the code never reaches that test: \<open>check_output\<close> raises
  \<open>CalledProcessError\<close> on the exit status 1 of \<open>git config\<close>, nothing catches it,
  and the program ends in it although \<open>HEAD\<close> resolves.
\<close>

theorem get_heads_no_remote_raises:
  "config_remotes no_remote_repo = Inl CalledProcessError \<and>
   revparse_single no_remote_repo ''HEAD'' = Inr ''cba'' \<and>
   get_heads no_remote_repo = Inl CalledProcessError \<and>
   stdout (main False pformat no_remote_repo chain_log empty_cache
             [''cba third'' @ [CHR 0x0A]]) = [] \<and>
   exit_status (main False pformat no_remote_repo chain_log empty_cache
             [''cba third'' @ [CHR 0x0A]]) = Uncaught CalledProcessError \<and>
   exit_status (main True pformat no_remote_repo chain_log empty_cache []) =
     Uncaught CalledProcessError"
  unfolding main_def by code_simp

text \<open>
  Where \<open>git config\<close> exits with status 0 and its lines parse, the closing test of
  \<open>_get_heads\<close> does what it is written for. Let \<open>built\<close> be the list the matching
  loops produce: if it is empty or its first name is not the first name of the catalog,
  the result is the single head \<open>(''HEAD'', h)\<close> with \<open>h\<close> the commit of \<open>HEAD\<close>;
  otherwise it is \<open>built\<close>.
\<close>

lemma get_heads_fallback:
  assumes "config_remotes rp = Inr cfg"
    and "parse_remotes cfg Map.empty = Inr remotes"
    and "match_heads rp remotes head_names [] = Inr built"
  shows "((built = [] \<or> fst (hd built) \<noteq> fst (hd head_names)) \<longrightarrow>
            (\<forall>h. revparse_single rp ''HEAD'' = Inr h \<longrightarrow> get_heads rp = Inr [(''HEAD'', h)])) \<and>
         (\<not> (built = [] \<or> fst (hd built) \<noteq> fst (hd head_names)) \<longrightarrow>
            get_heads rp = Inr built)"
  using assms by (simp add: get_heads_def head_fallback_def)

subsection \<open>The history builder\<close>

text \<open>
  C3. Under the contract of the log enumeration, a history that \<open>_rebuild_history\<close>
  returns lists pairwise disjoint sets of commits under distinct names, these sets
  together are the commits reachable from the heads, and the names are those of the heads.
\<close>

theorem rebuild_history_partition:
  assumes c: "log_contract gl reach"
    and r: "rebuild_history gl hs = Inr H"
  shows "(\<forall>n m. n \<noteq> m \<longrightarrow> link_commits H n \<inter> link_commits H m = {}) \<and>
         (\<Union>n\<in>dom H. link_commits H n) = (\<Union>r\<in>snd ` set hs. reach r) \<and>
         dom H = fst ` set hs"
proof -
  from r have "rebuild_loop gl hs (map (\<lambda>e. ''^'' @ e) []) Map.empty = Inr H"
    by (simp add: rebuild_history_def)
  from rebuild_loop_spec [OF c this] have
    d: "distinct (map fst hs)" and
    u: "\<forall>n. n \<notin> fst ` set hs \<longrightarrow> H n = None" and
    s: "\<forall>i<length hs. link_commits H (fst (hs ! i)) =
          reach (snd (hs ! i)) - (\<Union>r\<in>snd ` set (take i hs). reach r)" and
    p: "\<forall>n\<in>fst ` set hs. H n \<noteq> None"
    by simp_all
  have dom: "dom H = fst ` set hs"
    using u p by (auto simp: dom_def)
  have empty: "\<And>n. n \<notin> fst ` set hs \<Longrightarrow> link_commits H n = {}"
    using u by (simp add: link_commits_def)
  have lt: "\<And>i j. i < j \<Longrightarrow> j < length hs \<Longrightarrow>
      link_commits H (fst (hs ! i)) \<inter> link_commits H (fst (hs ! j)) = {}"
  proof -
    fix i j assume ij: "i < j" "j < length hs"
    then have "take j hs ! i = hs ! i" and "i < length (take j hs)"
      by simp_all
    then have "hs ! i \<in> set (take j hs)"
      by (metis nth_mem)
    then have "reach (snd (hs ! i)) \<subseteq> (\<Union>r\<in>snd ` set (take j hs). reach r)"
      by blast
    moreover have "link_commits H (fst (hs ! i)) \<subseteq> reach (snd (hs ! i))"
      using s ij by auto
    moreover have "link_commits H (fst (hs ! j)) \<inter> (\<Union>r\<in>snd ` set (take j hs). reach r) = {}"
      using s ij by auto
    ultimately show "link_commits H (fst (hs ! i)) \<inter> link_commits H (fst (hs ! j)) = {}"
      by blast
  qed
  have disj: "\<forall>n m. n \<noteq> m \<longrightarrow> link_commits H n \<inter> link_commits H m = {}"
  proof (intro allI impI)
    fix n m :: string assume nm: "n \<noteq> m"
    show "link_commits H n \<inter> link_commits H m = {}"
    proof (cases "n \<in> fst ` set hs \<and> m \<in> fst ` set hs")
      case False
      then show ?thesis using empty by auto
    next
      case True
      then obtain i j where i: "i < length hs" "n = fst (hs ! i)"
        and j: "j < length hs" "m = fst (hs ! j)"
        by (metis (no_types, lifting) imageE in_set_conv_nth)
      with nm have "i \<noteq> j" by auto
      then consider "i < j" | "j < i" by linarith
      then show ?thesis
      proof cases
        case 1 then show ?thesis using lt i j by simp
      next
        case 2 then show ?thesis using lt [of j i] i j by (simp add: Int_commute)
      qed
    qed
  qed
  have un: "(\<Union>n\<in>dom H. link_commits H n) = (\<Union>r\<in>snd ` set hs. reach r)"
  proof
    show "(\<Union>n\<in>dom H. link_commits H n) \<subseteq> (\<Union>r\<in>snd ` set hs. reach r)"
    proof
      fix x assume "x \<in> (\<Union>n\<in>dom H. link_commits H n)"
      then obtain n where n: "n \<in> fst ` set hs" "x \<in> link_commits H n"
        using dom by auto
      then obtain i where i: "i < length hs" "n = fst (hs ! i)"
        by (metis (no_types, lifting) imageE in_set_conv_nth)
      with s n have "x \<in> reach (snd (hs ! i))" by auto
      with i show "x \<in> (\<Union>r\<in>snd ` set hs. reach r)" by auto
    qed
  next
    show "(\<Union>r\<in>snd ` set hs. reach r) \<subseteq> (\<Union>n\<in>dom H. link_commits H n)"
    proof
      fix x assume "x \<in> (\<Union>r\<in>snd ` set hs. reach r)"
      then obtain j where j: "j < length hs" "x \<in> reach (snd (hs ! j))"
        by (metis (no_types, lifting) UN_E imageE in_set_conv_nth)
      define i where "i = (LEAST k. k < length hs \<and> x \<in> reach (snd (hs ! k)))"
      have ik: "i < length hs \<and> x \<in> reach (snd (hs ! i))"
        unfolding i_def by (rule LeastI [of _ j]) (use j in simp)
      have least: "\<And>k. k < i \<Longrightarrow> \<not> (k < length hs \<and> x \<in> reach (snd (hs ! k)))"
        unfolding i_def by (rule not_less_Least)
      have "x \<notin> (\<Union>r\<in>snd ` set (take i hs). reach r)"
      proof
        assume "x \<in> (\<Union>r\<in>snd ` set (take i hs). reach r)"
        then obtain e where e: "e \<in> set (take i hs)" "x \<in> reach (snd e)" by auto
        then obtain k where k: "k < length (take i hs)" "take i hs ! k = e"
          by (meson in_set_conv_nth)
        then have "k < i" "k < length hs" "hs ! k = e" using ik by auto
        with e least show False by blast
      qed
      with s ik have "x \<in> link_commits H (fst (hs ! i))" by auto
      moreover have "fst (hs ! i) \<in> dom H" using dom ik by auto
      ultimately show "x \<in> (\<Union>n\<in>dom H. link_commits H n)" by blast
    qed
  qed
  from disj un dom show ?thesis by blast
qed

subsection \<open>The cache\<close>

text \<open>
  C4. \<open>_get_history\<close> calls the builder exactly when the stored heads are absent or
  differ from the given ones, and then stores heads and history; otherwise its result is
  the stored history and the shelf is unchanged, whatever the builder is. A resolution
  that succeeded is followed by one that does not depend on the builder.
\<close>

theorem get_history_rebuild_iff:
  "(cache_heads c \<noteq> Some hs \<longrightarrow>
      get_history rb c hs =
        (case rb hs of
           Inl e \<Rightarrow> (Inl e, c)
         | Inr h \<Rightarrow> (Inr h, c\<lparr>cache_heads := Some hs, cache_history := Some h\<rparr>))) \<and>
   (cache_heads c = Some hs \<longrightarrow> cache_history c = Some h0 \<longrightarrow>
      (\<forall>rb'. get_history rb' c hs = (Inr h0, c))) \<and>
   (get_history rb c hs = (Inr h1, c1) \<longrightarrow>
      (\<forall>rb'. get_history rb' c1 hs = (Inr h1, c1)))"
  by (auto simp: get_history_def split: sum.splits option.splits if_splits)

text \<open>
  C9. When the builder raises, \<open>_get_history\<close> raises the same exception and the shelf
  is as it was; any exception of \<open>_get_history\<close> leaves the shelf as it was. The builder
  raises when two heads share a name and when a \<open>git log\<close> exits non-zero.
\<close>

theorem failed_rebuild_keeps_cache:
  "(\<forall>e. rebuild_history gl hs = Inl e \<longrightarrow> cache_heads c \<noteq> Some hs \<longrightarrow>
        get_history (rebuild_history gl) c hs = (Inl e, c)) \<and>
   (\<forall>e. fst (get_history (rebuild_history gl) c hs) = Inl e \<longrightarrow>
        snd (get_history (rebuild_history gl) c hs) = c) \<and>
   (\<not> distinct (map fst hs) \<longrightarrow> (\<exists>e. rebuild_history gl hs = Inl e)) \<and>
   ((\<exists>i<length hs. fst (gl (map (\<lambda>r. ''^'' @ r) (map snd (take i hs)) @ [snd (hs ! i)])) \<noteq> 0) \<longrightarrow>
        (\<exists>e. rebuild_history gl hs = Inl e))"
proof (intro conjI)
  show "\<forall>e. rebuild_history gl hs = Inl e \<longrightarrow> cache_heads c \<noteq> Some hs \<longrightarrow>
        get_history (rebuild_history gl) c hs = (Inl e, c)"
    by (simp add: get_history_def)
  show "\<forall>e. fst (get_history (rebuild_history gl) c hs) = Inl e \<longrightarrow>
        snd (get_history (rebuild_history gl) c hs) = c"
    by (auto simp: get_history_def split: sum.splits option.splits if_splits)
  show "\<not> distinct (map fst hs) \<longrightarrow> (\<exists>e. rebuild_history gl hs = Inl e)"
    unfolding rebuild_history_def using dup_fails [of hs Map.empty gl "[]"] by blast
  show "(\<exists>i<length hs. fst (gl (map (\<lambda>r. ''^'' @ r) (map snd (take i hs)) @ [snd (hs ! i)])) \<noteq> 0) \<longrightarrow>
        (\<exists>e. rebuild_history gl hs = Inl e)"
    unfolding rebuild_history_def using rc_fails [of _ hs gl "[]" Map.empty] by auto
qed

subsection \<open>The ordering engine\<close>

text \<open>
  C6. The entries \<open>git_sort\<close> yields are the values of a duplicate-free list of keys of
  the mapping, and the mapping left is the given one without these keys: no key is yielded
  twice, whatever the heads and the history are.
\<close>

theorem sort_heads_at_most_once:
  "sort_heads hs history m = (r, es, m') \<Longrightarrow>
     \<exists>ks. distinct ks \<and> set ks \<subseteq> fst ` set m \<and>
          map entry_value es = map (\<lambda>k. the (map_of m k)) ks \<and>
          m' = filter (\<lambda>kv. fst kv \<notin> set ks) m"
proof (induction hs arbitrary: m r es m')
  case Nil
  then have "es = []" "m' = m" by simp_all
  then have "distinct [] \<and> set [] \<subseteq> fst ` set m \<and>
          map entry_value es = map (\<lambda>k. the (map_of m k)) [] \<and>
          m' = filter (\<lambda>kv. fst kv \<notin> set []) m" by simp
  then show ?case by blast
next
  case (Cons h hs)
  obtain hn rv where h: "h = (hn, rv)" by (cases h)
  show ?case
  proof (cases "history hn")
    case None
    with Cons.prems h have "es = []" "m' = m" by simp_all
    then have "distinct [] \<and> set [] \<subseteq> fst ` set m \<and>
          map entry_value es = map (\<lambda>k. the (map_of m k)) [] \<and>
          m' = filter (\<lambda>kv. fst kv \<notin> set []) m" by simp
    then show ?thesis by blast
  next
    case (Some cs)
    obtain es1 m1 where one: "sort_commits hn cs m = (es1, m1)"
      by (cases "sort_commits hn cs m")
    obtain r2 es2 m2 where two: "sort_heads hs history m1 = (r2, es2, m2)"
      by (cases "sort_heads hs history m1")
    from Cons.prems h Some one two have res: "es = es1 @ es2" "m' = m2"
      by simp_all
    from sort_commits_keys [OF one] obtain ks1 where
      k1: "distinct ks1" "set ks1 \<subseteq> fst ` set m"
        "es1 = map (\<lambda>k. SortedEntry hn (the (map_of m k))) ks1"
        "m1 = filter (\<lambda>kv. fst kv \<notin> set ks1) m"
      by blast
    from Cons.IH [OF two] obtain ks2 where
      k2: "distinct ks2" "set ks2 \<subseteq> fst ` set m1"
        "map entry_value es2 = map (\<lambda>k. the (map_of m1 k)) ks2"
        "m2 = filter (\<lambda>kv. fst kv \<notin> set ks2) m1"
      by blast
    have disj: "set ks1 \<inter> set ks2 = {}"
      using k2(2) k1(4) by auto
    have same: "\<And>k. k \<notin> set ks1 \<Longrightarrow> map_of m1 k = map_of m k"
      unfolding k1(4) by (rule map_of_filter_keep)
    have "distinct (ks1 @ ks2)" using k1(1) k2(1) disj by simp
    moreover have "set (ks1 @ ks2) \<subseteq> fst ` set m"
      using k1(2) k2(2) k1(4) by auto
    moreover have "map entry_value es = map (\<lambda>k. the (map_of m k)) (ks1 @ ks2)"
    proof -
      have "map (\<lambda>k. the (map_of m1 k)) ks2 = map (\<lambda>k. the (map_of m k)) ks2"
      proof (rule map_cong)
        fix k assume "k \<in> set ks2"
        with disj have "k \<notin> set ks1" by blast
        then show "the (map_of m1 k) = the (map_of m k)"
          by (simp add: same)
      qed simp
      then have a: "map entry_value es2 = map (\<lambda>k. the (map_of m k)) ks2"
        by (simp only: k2(3))
      have b: "map entry_value es1 = map (\<lambda>k. the (map_of m k)) ks1"
        by (simp add: k1(3) comp_def)
      show ?thesis by (simp only: res(1) map_append a b)
    qed
    moreover have "m' = filter (\<lambda>kv. fst kv \<notin> set (ks1 @ ks2)) m"
      using res(2) k2(4) k1(4) by (auto intro: filter_cong)
    ultimately show ?thesis by blast
  qed
qed

subsection \<open>The program\<close>

text \<open>
  C1. The claim: entries left in the mapping are printed to standard error under the
  heading. The code prints the heading to standard error and the lines themselves, after
  the sorted ones, to standard output (the second \<open>print\<close> has no \<open>file=sys.stderr\<close>).
\<close>

theorem leftover_lines_go_to_stdout:
  "stdout (main False pformat demo_repo chain_log empty_cache
             [''cba third'' @ [CHR 0x0A], ''zz lost'' @ [CHR 0x0A], ''a first'' @ [CHR 0x0A]]) =
     ''a first'' @ [CHR 0x0A] @ ''cba third'' @ [CHR 0x0A] @ ''zz lost'' @ [CHR 0x0A] \<and>
   stderr (main False pformat demo_repo chain_log empty_cache
             [''cba third'' @ [CHR 0x0A], ''zz lost'' @ [CHR 0x0A], ''a first'' @ [CHR 0x0A]]) =
     ''Error: the following entries were not found upstream:'' @ [CHR 0x0A] \<and>
   exit_status (main False pformat demo_repo chain_log empty_cache
             [''cba third'' @ [CHR 0x0A], ''zz lost'' @ [CHR 0x0A], ''a first'' @ [CHR 0x0A]]) =
     Exit 1"
  unfolding main_def by code_simp

text \<open>
  C7, as the code has it. When every line before the \<open>k\<close>-th has a first token that
  resolves, and the first token of the \<open>k\<close>-th line does not parse or names no commit, the
  program prints nothing to standard output, writes the error that names line \<open>k\<close> to
  standard error and exits with status 1.
\<close>

theorem first_bad_line_reported:
  assumes pre: "\<forall>l\<in>set pre. resolves rp l"
    and tok: "split_ws1 (strip line) = tok # toks"
  shows "(revparse_single rp tok = Inl ValueError \<longrightarrow>
            main False pformat rp gl c (pre @ line # post) =
              \<lparr>stdout = [],
               stderr = ''Error: did not find a commit hash on line '' @
                        str_nat (length pre + 1) @ '':'' @ [CHR 0x0A] @ strip line @ [CHR 0x0A],
               exit_status = Exit 1, final_cache = c\<rparr>) \<and>
         (revparse_single rp tok = Inl KeyError \<longrightarrow>
            main False pformat rp gl c (pre @ line # post) =
              \<lparr>stdout = [],
               stderr = ''Error: commit hash on line '' @ str_nat (length pre + 1) @
                        '' not found in the repository:'' @ [CHR 0x0A] @ strip line @ [CHR 0x0A],
               exit_status = Exit 1, final_cache = c\<rparr>)"
proof -
  from read_lines_resolved [OF pre] obtain lines' where
    r: "read_lines rp (pre @ line # post) 0 [] =
        read_lines rp (line # post) (0 + length pre) lines'"
    by blast
  have v: "read_lines rp (line # post) (0 + length pre) lines' =
      Inl (''Error: did not find a commit hash on line '' @
           str_nat (length pre + 1) @ '':'' @ [CHR 0x0A] @ strip line @ [CHR 0x0A], Exit 1)"
    if "revparse_single rp tok = Inl ValueError"
    using that tok by (simp add: Let_def)
  have v': "read_lines rp (pre @ line # post) 0 [] =
      Inl (''Error: did not find a commit hash on line '' @
           str_nat (length pre + 1) @ '':'' @ [CHR 0x0A] @ strip line @ [CHR 0x0A], Exit 1)"
    if "revparse_single rp tok = Inl ValueError"
    using v [OF that] r by (simp only:)
  have k: "read_lines rp (line # post) (0 + length pre) lines' =
      Inl (''Error: commit hash on line '' @ str_nat (length pre + 1) @
           '' not found in the repository:'' @ [CHR 0x0A] @ strip line @ [CHR 0x0A], Exit 1)"
    if "revparse_single rp tok = Inl KeyError"
    using that tok by (simp add: Let_def)
  have k': "read_lines rp (pre @ line # post) 0 [] =
      Inl (''Error: commit hash on line '' @ str_nat (length pre + 1) @
           '' not found in the repository:'' @ [CHR 0x0A] @ strip line @ [CHR 0x0A], Exit 1)"
    if "revparse_single rp tok = Inl KeyError"
    using k [OF that] r by (simp only:)
  show ?thesis
    using v' k' by (simp add: main_def sort_stdin_def)
qed

text \<open>
  C8. A line of whitespace only has no token: the split is empty, the loop over the input
  ends in an \<open>IndexError\<close> no handler catches, and so does the program when the lines
  before it resolve, without a word on standard error.
\<close>

theorem blank_line_index_error:
  assumes blank: "\<forall>ch\<in>set line. isspace ch"
  shows "split_ws1 (strip line) = [] \<and>
         read_lines rp (line # post) num lines = Inl ([], Uncaught IndexError) \<and>
         ((\<forall>l\<in>set pre. resolves rp l) \<longrightarrow>
            main False pformat rp gl c (pre @ line # post) =
              \<lparr>stdout = [], stderr = [], exit_status = Uncaught IndexError, final_cache = c\<rparr>)"
proof -
  note t = blank_no_token [OF blank]
  have r: "\<And>num lines. read_lines rp (line # post) num lines = Inl ([], Uncaught IndexError)"
    using t by (simp add: Let_def)
  have "main False pformat rp gl c (pre @ line # post) =
      \<lparr>stdout = [], stderr = [], exit_status = Uncaught IndexError, final_cache = c\<rparr>"
    if "\<forall>l\<in>set pre. resolves rp l"
  proof -
    from read_lines_resolved [OF that] obtain lines' where
      "read_lines rp (pre @ line # post) 0 [] = read_lines rp (line # post) (0 + length pre) lines'"
      by blast
    then have "read_lines rp (pre @ line # post) 0 [] = Inl ([], Uncaught IndexError)"
      by (simp only: r)
    then show ?thesis by (simp add: main_def sort_stdin_def)
  qed
  with t r show ?thesis by blast
qed

text \<open>
  C10. With \<open>--dump-heads\<close> the shelf ends as it started, also when the program
  announces a rebuild.
\<close>

theorem dump_heads_keeps_cache:
  "final_cache (main True pformat rp gl c input) = c \<and>
   (\<forall>hs. get_heads rp = Inr hs \<longrightarrow> cache_heads c \<noteq> Some hs \<longrightarrow>
      main True pformat rp gl c input =
        \<lparr>stdout = ''Cached heads:'' @ [CHR 0x0A] @ pformat (cache_heads c) @ [CHR 0x0A] @
                  ''Current heads:'' @ [CHR 0x0A] @ pformat (Some hs) @ [CHR 0x0A] @
                  ''Will rebuild history'' @ [CHR 0x0A],
         stderr = [], exit_status = Exit 0, final_cache = c\<rparr>)"
  by (simp add: main_def dump_heads_def Let_def split: sum.splits)

section \<open>The claims on the example repository\<close>

text \<open>
  The theorems above that have hypotheses, used at the small repository: each hypothesis
  holds there and the conclusion is the value the program computes.
\<close>

lemma rebuild_two_links:
  "rebuild_history chain_log [(''linux.git'', ''cba''), (''net'', ''dba'')] = Inr two_link_history"
  by (simp add: rebuild_history_def chain_log_def ancestry_def strip_def rstrip_def lstrip_def
        isspace_def two_link_history_def list_all_iff)

theorem rebuild_history_partition_witness:
  "log_contract chain_log chain_reach \<and>
   rebuild_history chain_log [(''linux.git'', ''cba''), (''net'', ''dba'')] = Inr two_link_history \<and>
   link_commits two_link_history ''linux.git'' \<inter> link_commits two_link_history ''net'' = {} \<and>
   (\<Union>n\<in>dom two_link_history. link_commits two_link_history n) =
     (\<Union>r\<in>snd ` set [(''linux.git'', ''cba''), (''net'', ''dba'')]. chain_reach r) \<and>
   dom two_link_history = fst ` set [(''linux.git'', ''cba''), (''net'', ''dba'')]"
proof -
  note p = rebuild_history_partition [OF chain_log_contract rebuild_two_links]
  have i: "link_commits two_link_history ''linux.git'' \<inter>
        link_commits two_link_history ''net'' = {}"
    using p [THEN conjunct1, rule_format, of "''linux.git''" "''net''"] by simp
  show ?thesis
    by (intro conjI)
      (rule chain_log_contract rebuild_two_links i
         p [THEN conjunct2, THEN conjunct1] p [THEN conjunct2, THEN conjunct2])+
qed

lemma rebuild_one_link:
  "rebuild_history chain_log [(''linux.git'', ''cba'')] = Inr demo_history"
  by (simp add: rebuild_history_def chain_log_def ancestry_def strip_def rstrip_def lstrip_def
        isspace_def demo_history_def list_all_iff)

theorem get_history_rebuild_iff_witness:
  "cache_heads empty_cache \<noteq> Some [(''linux.git'', ''cba'')] \<and>
   get_history (rebuild_history chain_log) empty_cache [(''linux.git'', ''cba'')] =
     (Inr demo_history, demo_cache) \<and>
   cache_heads demo_cache = Some [(''linux.git'', ''cba'')] \<and>
   cache_history demo_cache = Some demo_history \<and>
   get_history (rebuild_history failing_log) demo_cache [(''linux.git'', ''cba'')] =
     (Inr demo_history, demo_cache)"
proof -
  have miss: "cache_heads empty_cache \<noteq> Some [(''linux.git'', ''cba'')]"
    by (simp add: empty_cache_def)
  have hit: "cache_heads demo_cache = Some [(''linux.git'', ''cba'')]"
    "cache_history demo_cache = Some demo_history"
    by (simp_all add: demo_cache_def)
  have upd: "empty_cache\<lparr>cache_heads := Some [(''linux.git'', ''cba'')],
                         cache_history := Some demo_history\<rparr> = demo_cache"
    by (simp add: empty_cache_def demo_cache_def)
  from get_history_rebuild_iff
         [where c = empty_cache and hs = "[(''linux.git'', ''cba'')]"
            and rb = "rebuild_history chain_log"]
       miss
  have first: "get_history (rebuild_history chain_log) empty_cache [(''linux.git'', ''cba'')] =
     (Inr demo_history, demo_cache)"
    by (simp add: rebuild_one_link upd)
  from get_history_rebuild_iff
         [where c = demo_cache and hs = "[(''linux.git'', ''cba'')]" and ?h0.0 = demo_history]
       hit
  have second: "get_history (rebuild_history failing_log) demo_cache [(''linux.git'', ''cba'')] =
     (Inr demo_history, demo_cache)"
    by blast
  from miss first hit second show ?thesis by blast
qed

lemma get_heads_fallback_examples:
  "match_heads net_only_repo
     [''https://git.kernel.org/pub/scm/linux/kernel/git/davem/net.git'' \<mapsto> ''davem'']
     head_names [] = Inr [(''net'', ''dba'')] \<and>
   get_heads net_only_repo = Inr [(''HEAD'', ''cba'')] \<and>
   match_heads foreign_repo [''https://example.org/project.git'' \<mapsto> ''origin'']
     head_names [] = Inr [] \<and>
   get_heads foreign_repo = Inr [(''HEAD'', ''cba'')] \<and>
   match_heads demo_repo
     [''git://git.kernel.org/pub/scm/linux/kernel/git/torvalds/linux.git'' \<mapsto> ''origin'']
     head_names [] = Inr [(''linux.git'', ''cba'')] \<and>
   get_heads demo_repo = Inr [(''linux.git'', ''cba'')]"
proof -
  have n1: "config_remotes net_only_repo = Inr
      [''remote.davem.url https://git.kernel.org/pub/scm/linux/kernel/git/davem/net.git'']"
    by (simp add: net_only_repo_def)
  have n2: "parse_remotes
      [''remote.davem.url https://git.kernel.org/pub/scm/linux/kernel/git/davem/net.git'']
      Map.empty =
      Inr [''https://git.kernel.org/pub/scm/linux/kernel/git/davem/net.git'' \<mapsto> ''davem'']"
    by (simp add: split_ws1_def lstrip_def isspace_def)
  have n3: "match_heads net_only_repo
     [''https://git.kernel.org/pub/scm/linux/kernel/git/davem/net.git'' \<mapsto> ''davem'']
     head_names [] = Inr [(''net'', ''dba'')]"
    by (simp add: head_names_def net_only_repo_def)
  have n4: "revparse_single net_only_repo ''HEAD'' = Inr ''cba''"
    by (simp add: net_only_repo_def)
  have f1: "config_remotes foreign_repo = Inr
      [''remote.origin.url https://example.org/project.git'']"
    by (simp add: foreign_repo_def)
  have f2: "parse_remotes [''remote.origin.url https://example.org/project.git''] Map.empty =
      Inr [''https://example.org/project.git'' \<mapsto> ''origin'']"
    by (simp add: split_ws1_def lstrip_def isspace_def)
  have f3: "match_heads foreign_repo [''https://example.org/project.git'' \<mapsto> ''origin'']
     head_names [] = Inr []"
    by (simp add: head_names_def foreign_repo_def)
  have f4: "revparse_single foreign_repo ''HEAD'' = Inr ''cba''"
    by (simp add: foreign_repo_def)
  have d1: "config_remotes demo_repo = Inr
      [''remote.origin.url git://git.kernel.org/pub/scm/linux/kernel/git/torvalds/linux.git'']"
    by (simp add: demo_repo_def)
  have d2: "parse_remotes
      [''remote.origin.url git://git.kernel.org/pub/scm/linux/kernel/git/torvalds/linux.git'']
      Map.empty =
      Inr [''git://git.kernel.org/pub/scm/linux/kernel/git/torvalds/linux.git'' \<mapsto> ''origin'']"
    by (simp add: split_ws1_def lstrip_def isspace_def)
  have d3: "match_heads demo_repo
     [''git://git.kernel.org/pub/scm/linux/kernel/git/torvalds/linux.git'' \<mapsto> ''origin'']
     head_names [] = Inr [(''linux.git'', ''cba'')]"
    by (simp add: head_names_def demo_repo_def)
  have "get_heads net_only_repo = Inr [(''HEAD'', ''cba'')]"
    using get_heads_fallback [OF n1 n2 n3] n4 by (simp add: head_names_def)
  moreover have "get_heads foreign_repo = Inr [(''HEAD'', ''cba'')]"
    using get_heads_fallback [OF f1 f2 f3] f4 by simp
  moreover have "get_heads demo_repo = Inr [(''linux.git'', ''cba'')]"
    using get_heads_fallback [OF d1 d2 d3] by (simp add: head_names_def)
  ultimately show ?thesis using n3 f3 d3 by blast
qed

lemma sort_overlapping:
  "sort_heads [(''linux.git'', ''cba''), (''net'', ''dba'')] overlapping_history
     [(''dba'', [''dba y'']), (''ba'', [''ba x''])] =
   (None, [SortedEntry ''linux.git'' [''ba x''], SortedEntry ''net'' [''dba y'']], [])"
  by (simp add: overlapping_history_def pop_def dict_del_def)

theorem sort_heads_at_most_once_witness:
  "sort_heads [(''linux.git'', ''cba''), (''net'', ''dba'')] overlapping_history
     [(''dba'', [''dba y'']), (''ba'', [''ba x''])] =
   (None, [SortedEntry ''linux.git'' [''ba x''], SortedEntry ''net'' [''dba y'']], []) \<and>
   (\<exists>ks. distinct ks \<and>
      set ks \<subseteq> fst ` set [(''dba'', [''dba y'']), (''ba'', [''ba x''])] \<and>
      map entry_value [SortedEntry ''linux.git'' [''ba x''], SortedEntry ''net'' [''dba y'']] =
        map (\<lambda>k. the (map_of [(''dba'', [''dba y'']), (''ba'', [''ba x''])] k)) ks \<and>
      [] = filter (\<lambda>kv. fst kv \<notin> set ks) [(''dba'', [''dba y'']), (''ba'', [''ba x''])])"
  using sort_heads_at_most_once [OF sort_overlapping] sort_overlapping by blast

lemma str_nat_small: "str_nat (Suc 0) = ''1''" "str_nat (Suc (Suc 0)) = ''2''"
  by code_simp+

text \<open>
  C7 as the claim states it, at two bad lines: the second line's token does not parse,
  and the error names line 1, whose token names no commit; the program has stopped there.
\<close>

theorem later_bad_line_not_named:
  "split_ws1 (strip (''not-a-hash two'' @ [CHR 0x0A])) = [''not-a-hash'', ''two''] \<and>
   revparse_single demo_repo ''not-a-hash'' = Inl ValueError \<and>
   main False demo_pformat demo_repo chain_log empty_cache
     [''zzz one'' @ [CHR 0x0A], ''not-a-hash two'' @ [CHR 0x0A]] =
     \<lparr>stdout = [],
      stderr = ''Error: commit hash on line 1 not found in the repository:'' @ [CHR 0x0A] @
               ''zzz one'' @ [CHR 0x0A],
      exit_status = Exit 1, final_cache = empty_cache\<rparr>"
  by (simp add: main_def sort_stdin_def demo_repo_def split_ws1_def strip_def rstrip_def
        lstrip_def isspace_def str_nat_small)

lemma a_first_resolves: "resolves demo_repo (''a first'' @ [CHR 0x0A])"
  by (simp add: resolves_def demo_repo_def split_ws1_def strip_def rstrip_def lstrip_def
        isspace_def)

theorem first_bad_line_reported_witness:
  "resolves demo_repo (''a first'' @ [CHR 0x0A]) \<and>
   split_ws1 (strip (''not-a-hash two'' @ [CHR 0x0A])) = [''not-a-hash'', ''two''] \<and>
   revparse_single demo_repo ''not-a-hash'' = Inl ValueError \<and>
   main False demo_pformat demo_repo chain_log empty_cache
     [''a first'' @ [CHR 0x0A], ''not-a-hash two'' @ [CHR 0x0A], ''cba three'' @ [CHR 0x0A]] =
     \<lparr>stdout = [],
      stderr = ''Error: did not find a commit hash on line 2:'' @ [CHR 0x0A] @
               ''not-a-hash two'' @ [CHR 0x0A],
      exit_status = Exit 1, final_cache = empty_cache\<rparr> \<and>
   split_ws1 (strip (''zzz two'' @ [CHR 0x0A])) = [''zzz'', ''two''] \<and>
   revparse_single demo_repo ''zzz'' = Inl KeyError \<and>
   main False demo_pformat demo_repo chain_log empty_cache
     [''a first'' @ [CHR 0x0A], ''zzz two'' @ [CHR 0x0A], ''cba three'' @ [CHR 0x0A]] =
     \<lparr>stdout = [],
      stderr = ''Error: commit hash on line 2 not found in the repository:'' @ [CHR 0x0A] @
               ''zzz two'' @ [CHR 0x0A],
      exit_status = Exit 1, final_cache = empty_cache\<rparr>"
proof -
  have pre: "\<forall>l\<in>set [''a first'' @ [CHR 0x0A]]. resolves demo_repo l"
    using a_first_resolves by simp
  have t1: "split_ws1 (strip (''not-a-hash two'' @ [CHR 0x0A])) = ''not-a-hash'' # [''two'']"
    by (simp add: split_ws1_def strip_def rstrip_def lstrip_def isspace_def)
  have r1: "revparse_single demo_repo ''not-a-hash'' = Inl ValueError"
    by (simp add: demo_repo_def)
  have t2: "split_ws1 (strip (''zzz two'' @ [CHR 0x0A])) = ''zzz'' # [''two'']"
    by (simp add: split_ws1_def strip_def rstrip_def lstrip_def isspace_def)
  have r2: "revparse_single demo_repo ''zzz'' = Inl KeyError"
    by (simp add: demo_repo_def)
  have s1: "strip (''not-a-hash two'' @ [CHR 0x0A]) = ''not-a-hash two''"
    and s2: "strip (''zzz two'' @ [CHR 0x0A]) = ''zzz two''"
    by (simp_all add: strip_def rstrip_def lstrip_def isspace_def)
  from first_bad_line_reported
         [OF pre t1, of demo_pformat chain_log empty_cache "[''cba three'' @ [CHR 0x0A]]"]
       r1
  have m1: "main False demo_pformat demo_repo chain_log empty_cache
     [''a first'' @ [CHR 0x0A], ''not-a-hash two'' @ [CHR 0x0A], ''cba three'' @ [CHR 0x0A]] =
     \<lparr>stdout = [],
      stderr = ''Error: did not find a commit hash on line 2:'' @ [CHR 0x0A] @
               ''not-a-hash two'' @ [CHR 0x0A],
      exit_status = Exit 1, final_cache = empty_cache\<rparr>"
    by (simp add: str_nat_small s1 [simplified])
  from first_bad_line_reported
         [OF pre t2, of demo_pformat chain_log empty_cache "[''cba three'' @ [CHR 0x0A]]"]
       r2
  have m2: "main False demo_pformat demo_repo chain_log empty_cache
     [''a first'' @ [CHR 0x0A], ''zzz two'' @ [CHR 0x0A], ''cba three'' @ [CHR 0x0A]] =
     \<lparr>stdout = [],
      stderr = ''Error: commit hash on line 2 not found in the repository:'' @ [CHR 0x0A] @
               ''zzz two'' @ [CHR 0x0A],
      exit_status = Exit 1, final_cache = empty_cache\<rparr>"
    by (simp add: str_nat_small s2 [simplified])
  from a_first_resolves t1 r1 m1 t2 r2 m2 show ?thesis by simp
qed

theorem blank_line_index_error_witness:
  "isspace (CHR '' '') \<and> isspace (CHR 0x09) \<and> isspace (CHR 0x0A) \<and>
   resolves demo_repo (''a first'' @ [CHR 0x0A]) \<and>
   split_ws1 (strip [CHR '' '', CHR 0x09, CHR 0x0A]) = [] \<and>
   main False demo_pformat demo_repo chain_log empty_cache
     [''a first'' @ [CHR 0x0A], [CHR '' '', CHR 0x09, CHR 0x0A], ''cba three'' @ [CHR 0x0A]] =
     \<lparr>stdout = [], stderr = [], exit_status = Uncaught IndexError, final_cache = empty_cache\<rparr>"
proof -
  have sp: "isspace (CHR '' '')" "isspace (CHR 0x09)" "isspace (CHR 0x0A)"
    by (simp_all add: isspace_def)
  then have blank: "\<forall>ch\<in>set [CHR '' '', CHR 0x09, CHR 0x0A]. isspace ch"
    by simp
  have pre: "\<forall>l\<in>set [''a first'' @ [CHR 0x0A]]. resolves demo_repo l"
    using a_first_resolves by simp
  from blank_line_index_error
         [OF blank, of demo_repo "[''cba three'' @ [CHR 0x0A]]" 0 "[]"
            "[''a first'' @ [CHR 0x0A]]" demo_pformat chain_log empty_cache]
       pre sp a_first_resolves
  show ?thesis by simp
qed

lemma failing_rebuild:
  "rebuild_history failing_log [(''linux.git'', ''cba'')] =
     Inl (Exception (''git log exited with an error:'' @ [CHR 0x0A] @ ''fatal: bad revision''))"
  by (simp add: rebuild_history_def failing_log_def strip_def rstrip_def lstrip_def isspace_def)

theorem failed_rebuild_keeps_cache_witness:
  "rebuild_history failing_log [(''linux.git'', ''cba'')] =
     Inl (Exception (''git log exited with an error:'' @ [CHR 0x0A] @ ''fatal: bad revision'')) \<and>
   cache_heads stale_cache \<noteq> Some [(''linux.git'', ''cba'')] \<and>
   get_history (rebuild_history failing_log) stale_cache [(''linux.git'', ''cba'')] =
     (Inl (Exception (''git log exited with an error:'' @ [CHR 0x0A] @ ''fatal: bad revision'')),
      stale_cache) \<and>
   fst (failing_log (map (\<lambda>r. ''^'' @ r) (map snd (take 0 [(''linux.git'', ''cba'')])) @
                    [snd ([(''linux.git'', ''cba'')] ! 0)])) \<noteq> 0 \<and>
   \<not> distinct (map fst [(''linux.git'', ''cba''), (''linux.git'', ''dcba'')]) \<and>
   (\<exists>e. rebuild_history chain_log [(''linux.git'', ''cba''), (''linux.git'', ''dcba'')] = Inl e)"
proof -
  have miss: "cache_heads stale_cache \<noteq> Some [(''linux.git'', ''cba'')]"
    by (simp add: stale_cache_def)
  have rc: "fst (failing_log (map (\<lambda>r. ''^'' @ r) (map snd (take 0 [(''linux.git'', ''cba'')])) @
                    [snd ([(''linux.git'', ''cba'')] ! 0)])) \<noteq> 0"
    by (simp add: failing_log_def)
  have dup: "\<not> distinct (map fst [(''linux.git'', ''cba''), (''linux.git'', ''dcba'')])"
    by simp
  from failed_rebuild_keeps_cache
         [of failing_log "[(''linux.git'', ''cba'')]" stale_cache]
       failing_rebuild miss
  have keep: "get_history (rebuild_history failing_log) stale_cache [(''linux.git'', ''cba'')] =
     (Inl (Exception (''git log exited with an error:'' @ [CHR 0x0A] @ ''fatal: bad revision'')),
      stale_cache)"
    by blast
  from failed_rebuild_keeps_cache
         [of chain_log "[(''linux.git'', ''cba''), (''linux.git'', ''dcba'')]" stale_cache]
       dup
  have fails: "\<exists>e. rebuild_history chain_log
                      [(''linux.git'', ''cba''), (''linux.git'', ''dcba'')] = Inl e"
    by blast
  from failing_rebuild miss keep rc dup fails show ?thesis by blast
qed

theorem dump_heads_keeps_cache_witness:
  "get_heads demo_repo = Inr [(''linux.git'', ''cba'')] \<and>
   cache_heads stale_cache \<noteq> Some [(''linux.git'', ''cba'')] \<and>
   main True demo_pformat demo_repo chain_log stale_cache [] =
     \<lparr>stdout = ''Cached heads:'' @ [CHR 0x0A] @ ''linux.git ba;'' @ [CHR 0x0A] @
               ''Current heads:'' @ [CHR 0x0A] @ ''linux.git cba;'' @ [CHR 0x0A] @
               ''Will rebuild history'' @ [CHR 0x0A],
      stderr = [], exit_status = Exit 0, final_cache = stale_cache\<rparr>"
proof -
  have h: "get_heads demo_repo = Inr [(''linux.git'', ''cba'')]"
    by code_simp
  have miss: "cache_heads stale_cache \<noteq> Some [(''linux.git'', ''cba'')]"
    by (simp add: stale_cache_def)
  have f: "demo_pformat (cache_heads stale_cache) = ''linux.git ba;''"
    "demo_pformat (Some [(''linux.git'', ''cba'')]) = ''linux.git cba;''"
    by (simp_all add: demo_pformat_def stale_cache_def)
  from dump_heads_keeps_cache [of demo_pformat demo_repo chain_log stale_cache "[]"] h miss
  have "main True demo_pformat demo_repo chain_log stale_cache [] =
     \<lparr>stdout = ''Cached heads:'' @ [CHR 0x0A] @ demo_pformat (cache_heads stale_cache) @
               [CHR 0x0A] @ ''Current heads:'' @ [CHR 0x0A] @
               demo_pformat (Some [(''linux.git'', ''cba'')]) @ [CHR 0x0A] @
               ''Will rebuild history'' @ [CHR 0x0A],
      stderr = [], exit_status = Exit 0, final_cache = stale_cache\<rparr>"
    by blast
  with h miss f show ?thesis by simp
qed

end
